theory Spec2Isabelle
  imports Main "HOL-Library.Multiset"
begin

section \<open>Inspectable.h: values, transformations and change notification\<close>

text \<open>
  The header defines three kinds of object that refer to each other through raw
  pointers: \<open>InspectableTransformation<T>\<close> (a function with a priority and an enabled
  flag), \<open>Inspectable<T>\<close> (an identity value, a cached value, a vector of pointers to
  transformations and two vectors of pointers to callbacks) and the
  \<open>std::function\<close> objects used as callbacks.

  The embedding keeps the pointers: an address is a natural number, \<open>0\<close> is the null
  pointer, and a \<open>world\<close> holds one store per kind of object. The stores are total:
  every address that is handed to an inspectable is taken to point to a live object,
  which the header leaves to its user.

  A host closure is modelled by what the header can observe of it. A transformation
  function \<open>void(T&)\<close> maps the referenced value to the value it leaves behind,
  together with the exception it throws, if any. A callback
  \<open>void(Inspectable<T>*, const T&, const T&)\<close> leaves a record of its call in
  \<open>calls\<close> and may throw; it does not call back into the inspectable.
  A C++ function that may throw returns the world it leaves behind together with
  \<open>Some\<close> exception, or \<open>None\<close> when it returns normally.

  \<open>m_Priority\<close> is a C++ \<open>int\<close>; the header only compares priorities, so the
  model takes them as integers.

  The header compares values of \<open>T\<close> with \<open>T\<close>'s own \<open>operator!=\<close>
  (\<open>lastValue != value\<close> in \<open>ForceUpdate\<close>, \<open>m_Identity != value\<close> in
  \<open>SetIdentity\<close>). That operator need not be the negation of identity: for
  \<open>float\<close> and \<open>double\<close>, which the header instantiates itself, a NaN is
  unequal to every value, itself included. The operations that compare take the
  operator as a parameter \<open>ne\<close>.
\<close>

subsection \<open>Objects\<close>

type_synonym addr = nat

definition nullptr :: addr where
  "nullptr = 0"

datatype exn = bad_function_call | host_exception string

type_synonym 'a operator_ne = "'a \<Rightarrow> 'a \<Rightarrow> bool"

type_synonym 'a TTransformFunc = "('a \<Rightarrow> 'a \<times> exn option) option"

type_synonym 'a TValueChangedFunc = "(addr \<Rightarrow> 'a \<Rightarrow> 'a \<Rightarrow> exn option) option"

record 'a InspectableTransformation =
  m_Priority :: int
  m_Enabled :: bool
  m_Function :: "'a TTransformFunc"

record 'a Inspectable =
  m_Identity :: 'a
  m_LastValue :: 'a
  m_Transformations :: "addr list"
  m_IdentityChanged :: "addr list"
  m_ValueChanged :: "addr list"

text \<open>An entry of \<open>calls\<close>: the callback's address and its three arguments.\<close>

type_synonym 'a call = "addr \<times> addr \<times> 'a \<times> 'a"

record 'a world =
  inspectables :: "addr \<Rightarrow> 'a Inspectable"
  transformations :: "addr \<Rightarrow> 'a InspectableTransformation"
  callbacks :: "addr \<Rightarrow> 'a TValueChangedFunc"
  calls :: "'a call list"

definition update_inspectable ::
  "addr \<Rightarrow> ('a Inspectable \<Rightarrow> 'a Inspectable) \<Rightarrow> 'a world \<Rightarrow> 'a world" where
  "update_inspectable this f w =
     w\<lparr>inspectables := (inspectables w)(this := f (inspectables w this))\<rparr>"

definition update_transformation ::
  "addr \<Rightarrow> ('a InspectableTransformation \<Rightarrow> 'a InspectableTransformation) \<Rightarrow>
   'a world \<Rightarrow> 'a world" where
  "update_transformation t f w =
     w\<lparr>transformations := (transformations w)(t := f (transformations w t))\<rparr>"

subsection \<open>The vector operations the header uses\<close>

text \<open>
  \<open>std::find\<close> returns the position of the first element equal to \<open>x\<close>, or the
  end of the range; \<open>erase\<close> removes the element at a position; \<open>push_back\<close>
  appends.
\<close>

fun std_find :: "'p list \<Rightarrow> 'p \<Rightarrow> nat" where
  "std_find [] x = 0"
| "std_find (y # ys) x = (if y = x then 0 else Suc (std_find ys x))"

definition erase :: "'p list \<Rightarrow> nat \<Rightarrow> 'p list" where
  "erase xs i = take i xs @ drop (Suc i) xs"

definition push_back :: "'p list \<Rightarrow> 'p \<Rightarrow> 'p list" where
  "push_back xs x = xs @ [x]"

text \<open>
  \<open>std::sort\<close> belongs to the standard library, not to the header. The operations that
  sort take it as a parameter \<open>srt\<close>; what the C++ standard promises of it is
  \<open>std_sort_contract\<close>: for a comparison that is a strict weak ordering the result is
  a permutation of the range in which no element is ordered before one that precedes
  it. The standard promises nothing about the order of equivalent elements.
\<close>

type_synonym 'p std_sort = "('p \<Rightarrow> 'p \<Rightarrow> bool) \<Rightarrow> 'p list \<Rightarrow> 'p list"

definition strict_weak_order :: "('p \<Rightarrow> 'p \<Rightarrow> bool) \<Rightarrow> bool" where
  "strict_weak_order cmp \<longleftrightarrow>
     (\<forall>a. \<not> cmp a a) \<and>
     (\<forall>a b c. cmp a b \<longrightarrow> cmp b c \<longrightarrow> cmp a c) \<and>
     (\<forall>a b c. \<not> cmp a b \<longrightarrow> \<not> cmp b c \<longrightarrow> \<not> cmp a c)"

definition std_sort_contract :: "'p std_sort \<Rightarrow> bool" where
  "std_sort_contract srt \<longleftrightarrow>
     (\<forall>cmp xs. strict_weak_order cmp \<longrightarrow>
        mset (srt cmp xs) = mset xs \<and> sorted_wrt (\<lambda>a b. \<not> cmp b a) (srt cmp xs))"

text \<open>
  Two sorts that keep the contract. \<open>insertion_sort\<close> moves each element towards the
  front past the elements it is ordered before, and so keeps equivalent elements in
  their order; \<open>reversing_sort\<close> does the same on the reversed range, and so reverses
  them.
\<close>

fun linear_insert :: "('p \<Rightarrow> 'p \<Rightarrow> bool) \<Rightarrow> 'p list \<Rightarrow> 'p \<Rightarrow> 'p list" where
  "linear_insert cmp [] x = [x]"
| "linear_insert cmp (y # ys) x =
     (if cmp x y then x # y # ys else y # linear_insert cmp ys x)"

definition insertion_sort :: "'p std_sort" where
  "insertion_sort cmp xs = foldl (linear_insert cmp) [] xs"

definition reversing_sort :: "'p std_sort" where
  "reversing_sort cmp xs = insertion_sort cmp (rev xs)"

subsection \<open>InspectableTransformation\<close>

definition Set_transformation ::
  "'a TTransformFunc \<Rightarrow> int \<Rightarrow> bool \<Rightarrow> 'a InspectableTransformation \<Rightarrow>
   'a InspectableTransformation" where
  "Set_transformation func priority enabled t =
     t\<lparr>m_Function := func, m_Priority := priority, m_Enabled := enabled\<rparr>"

definition Enable :: "'a InspectableTransformation \<Rightarrow> 'a InspectableTransformation" where
  "Enable t = t\<lparr>m_Enabled := True\<rparr>"

definition Disable :: "'a InspectableTransformation \<Rightarrow> 'a InspectableTransformation" where
  "Disable t = t\<lparr>m_Enabled := False\<rparr>"

definition IsEnabled :: "'a InspectableTransformation \<Rightarrow> bool" where
  "IsEnabled t = m_Enabled t"

definition GetPriority :: "'a InspectableTransformation \<Rightarrow> int" where
  "GetPriority t = m_Priority t"

definition GetTransformFunc :: "'a InspectableTransformation \<Rightarrow> 'a TTransformFunc" where
  "GetTransformFunc t = m_Function t"

text \<open>
  \<open>operator()\<close> is \<open>m_Function(input)\<close>: calling a \<open>std::function\<close> that has no
  target throws \<open>std::bad_function_call\<close>.
\<close>

definition call_operator :: "'a InspectableTransformation \<Rightarrow> 'a \<Rightarrow> 'a \<times> exn option" where
  "call_operator t input =
     (case m_Function t of
        None \<Rightarrow> (input, Some bad_function_call)
      | Some f \<Rightarrow> f input)"

subsection \<open>Inspectable\<close>

definition Inspectable_init :: "'a \<Rightarrow> 'a Inspectable" where
  "Inspectable_init identity =
     \<lparr>m_Identity = identity, m_LastValue = identity, m_Transformations = [],
      m_IdentityChanged = [], m_ValueChanged = []\<rparr>"

text \<open>The loop over \<open>m_Transformations\<close> in \<open>ForceUpdate\<close>, on the local \<open>value\<close>.\<close>

fun apply_transformations :: "'a world \<Rightarrow> addr list \<Rightarrow> 'a \<Rightarrow> 'a \<times> exn option" where
  "apply_transformations w [] val = (val, None)"
| "apply_transformations w (transform # rest) val =
     (if IsEnabled (transformations w transform) \<and>
         GetTransformFunc (transformations w transform) \<noteq> None
      then (case call_operator (transformations w transform) val of
              (val', None) \<Rightarrow> apply_transformations w rest val'
            | (val', Some e) \<Rightarrow> (val', Some e))
      else apply_transformations w rest val)"

text \<open>One call \<open>(*func)(this, lastValue, value)\<close>, and the loop over a callback vector.\<close>

definition invoke :: "addr \<Rightarrow> addr \<Rightarrow> 'a \<Rightarrow> 'a \<Rightarrow> 'a world \<Rightarrow> 'a world \<times> exn option" where
  "invoke func this lastValue val w =
     (case callbacks w func of
        None \<Rightarrow> (w, Some bad_function_call)
      | Some g \<Rightarrow> (w\<lparr>calls := calls w @ [(func, this, lastValue, val)]\<rparr>,
                   g this lastValue val))"

fun notify :: "addr list \<Rightarrow> addr \<Rightarrow> 'a \<Rightarrow> 'a \<Rightarrow> 'a world \<Rightarrow> 'a world \<times> exn option" where
  "notify [] this lastValue val w = (w, None)"
| "notify (func # rest) this lastValue val w =
     (case invoke func this lastValue val w of
        (w', None) \<Rightarrow> notify rest this lastValue val w'
      | (w', Some e) \<Rightarrow> (w', Some e))"

definition ForceUpdate :: "'a operator_ne \<Rightarrow> addr \<Rightarrow> 'a world \<Rightarrow> 'a world \<times> exn option" where
  "ForceUpdate ne this w =
     (let lastValue = m_LastValue (inspectables w this) in
      case apply_transformations w (m_Transformations (inspectables w this))
             (m_Identity (inspectables w this)) of
        (val, Some e) \<Rightarrow> (w, Some e)
      | (val, None) \<Rightarrow>
          (let w' = update_inspectable this (\<lambda>c. c\<lparr>m_LastValue := val\<rparr>) w in
           if ne lastValue val
           then notify (m_ValueChanged (inspectables w' this)) this lastValue val w'
           else (w', None)))"

definition TransformationPredicate :: "'a world \<Rightarrow> addr \<Rightarrow> addr \<Rightarrow> bool" where
  "TransformationPredicate w a b \<longleftrightarrow>
     GetPriority (transformations w a) > GetPriority (transformations w b)"

definition SortTransformations :: "addr std_sort \<Rightarrow> addr \<Rightarrow> 'a world \<Rightarrow> 'a world" where
  "SortTransformations srt this w =
     update_inspectable this
       (\<lambda>c. c\<lparr>m_Transformations := srt (TransformationPredicate w) (m_Transformations c)\<rparr>) w"

definition AddTransformation ::
  "addr std_sort \<Rightarrow> 'a operator_ne \<Rightarrow> addr \<Rightarrow> addr \<Rightarrow> bool \<Rightarrow> 'a world \<Rightarrow> 'a world \<times> exn option" where
  "AddTransformation srt ne this transformation andUpdate w =
     (if transformation = nullptr then (w, None)
      else
        (let w1 = update_inspectable this
                    (\<lambda>c. c\<lparr>m_Transformations :=
                             push_back (m_Transformations c) transformation\<rparr>) w;
             w2 = SortTransformations srt this w1
         in if andUpdate then ForceUpdate ne this w2 else (w2, None)))"

text \<open>
  The overload that takes the transformation by reference and sets it first. A
  reference is never null.
\<close>

definition AddTransformation_func ::
  "addr std_sort \<Rightarrow> 'a operator_ne \<Rightarrow> addr \<Rightarrow> addr \<Rightarrow> 'a TTransformFunc \<Rightarrow> int \<Rightarrow> bool \<Rightarrow> bool \<Rightarrow>
   'a world \<Rightarrow> 'a world \<times> exn option" where
  "AddTransformation_func srt ne this outTransformation func priority enabled andUpdate w =
     AddTransformation srt ne this outTransformation andUpdate
       (update_transformation outTransformation
          (Set_transformation func priority enabled) w)"

definition AddTransformationUnique ::
  "addr std_sort \<Rightarrow> 'a operator_ne \<Rightarrow> addr \<Rightarrow> addr \<Rightarrow> bool \<Rightarrow> 'a world \<Rightarrow> 'a world \<times> exn option" where
  "AddTransformationUnique srt ne this transformation andUpdate w =
     (if transformation = nullptr then (w, None)
      else
        (let found = std_find (m_Transformations (inspectables w this)) transformation in
         if found = length (m_Transformations (inspectables w this))
         then
           (let w1 = update_inspectable this
                       (\<lambda>c. c\<lparr>m_Transformations :=
                                push_back (m_Transformations c) transformation\<rparr>) w;
                w2 = SortTransformations srt this w1
            in if andUpdate then ForceUpdate ne this w2 else (w2, None))
         else (w, None)))"

definition RemoveTransformation ::
  "'a operator_ne \<Rightarrow> addr \<Rightarrow> addr \<Rightarrow> bool \<Rightarrow> 'a world \<Rightarrow> 'a world \<times> exn option" where
  "RemoveTransformation ne this transformation andUpdate w =
     (if transformation = nullptr then (w, None)
      else
        (let found = std_find (m_Transformations (inspectables w this)) transformation in
         if found \<noteq> length (m_Transformations (inspectables w this))
         then
           (let w1 = update_inspectable this
                       (\<lambda>c. c\<lparr>m_Transformations := erase (m_Transformations c) found\<rparr>) w
            in if andUpdate then ForceUpdate ne this w1 else (w1, None))
         else (w, None)))"

definition ContainsTransformation :: "addr \<Rightarrow> addr \<Rightarrow> 'a world \<Rightarrow> bool" where
  "ContainsTransformation this transformation w =
     (if transformation = nullptr then False
      else std_find (m_Transformations (inspectables w this)) transformation
             \<noteq> length (m_Transformations (inspectables w this)))"

definition AddOnIdentityChanged :: "addr \<Rightarrow> addr \<Rightarrow> 'a world \<Rightarrow> 'a world" where
  "AddOnIdentityChanged this f w =
     (if f \<noteq> nullptr \<and> callbacks w f \<noteq> None
      then update_inspectable this
             (\<lambda>c. c\<lparr>m_IdentityChanged := push_back (m_IdentityChanged c) f\<rparr>) w
      else w)"

definition AddOnValueChanged :: "addr \<Rightarrow> addr \<Rightarrow> 'a world \<Rightarrow> 'a world" where
  "AddOnValueChanged this f w =
     (if f \<noteq> nullptr \<and> callbacks w f \<noteq> None
      then update_inspectable this
             (\<lambda>c. c\<lparr>m_ValueChanged := push_back (m_ValueChanged c) f\<rparr>) w
      else w)"

definition SetIdentity :: "'a operator_ne \<Rightarrow> addr \<Rightarrow> 'a \<Rightarrow> bool \<Rightarrow> 'a world \<Rightarrow> 'a world \<times> exn option" where
  "SetIdentity ne this val andUpdate w =
     (if ne (m_Identity (inspectables w this)) val
      then
        (let last = m_Identity (inspectables w this);
             w1 = update_inspectable this (\<lambda>c. c\<lparr>m_Identity := val\<rparr>) w
         in case (if andUpdate then ForceUpdate ne this w1 else (w1, None)) of
              (w2, Some e) \<Rightarrow> (w2, Some e)
            | (w2, None) \<Rightarrow>
                notify (m_IdentityChanged (inspectables w2 this)) this last
                  (m_Identity (inspectables w2 this)) w2)
      else (w, None))"

text \<open>\<open>GetValue\<close> returns the cached value, or the exception of the update it ran.\<close>

definition GetValue :: "'a operator_ne \<Rightarrow> addr \<Rightarrow> bool \<Rightarrow> 'a world \<Rightarrow> 'a world \<times> (exn + 'a)" where
  "GetValue ne this andForceUpdate w =
     (case (if andForceUpdate then ForceUpdate ne this w else (w, None)) of
        (w', Some e) \<Rightarrow> (w', Inl e)
      | (w', None) \<Rightarrow> (w', Inr (m_LastValue (inspectables w' this))))"

text \<open>A caller that calls \<open>ForceUpdate\<close> \<open>n\<close> times in a row, whatever each call throws.\<close>

fun ForceUpdate_repeated :: "'a operator_ne \<Rightarrow> nat \<Rightarrow> addr \<Rightarrow> 'a world \<Rightarrow> 'a world" where
  "ForceUpdate_repeated ne 0 this w = w"
| "ForceUpdate_repeated ne (Suc n) this w = ForceUpdate_repeated ne n this (fst (ForceUpdate ne this w))"

subsection \<open>What the operations are meant to compute\<close>

text \<open>
  The description of a recomputation, independent of the loop: the transformations of
  the inspectable that are enabled and have a function, in the order of the vector,
  folded over the identity; and the calls that a vector of callbacks receives.
\<close>

definition applicable :: "'a world \<Rightarrow> addr \<Rightarrow> bool" where
  "applicable w t \<longleftrightarrow>
     m_Enabled (transformations w t) \<and> m_Function (transformations w t) \<noteq> None"

definition derived_value :: "'a world \<Rightarrow> addr \<Rightarrow> 'a" where
  "derived_value w this =
     fold (\<lambda>t v. fst (the (m_Function (transformations w t)) v))
       (filter (applicable w) (m_Transformations (inspectables w this)))
       (m_Identity (inspectables w this))"

definition record_calls :: "addr list \<Rightarrow> addr \<Rightarrow> 'a \<Rightarrow> 'a \<Rightarrow> 'a call list" where
  "record_calls fs this a b = map (\<lambda>f. (f, this, a, b)) fs"

definition by_descending_priority :: "'a world \<Rightarrow> addr list \<Rightarrow> bool" where
  "by_descending_priority w ts \<longleftrightarrow>
     sorted_wrt (\<lambda>a b. m_Priority (transformations w a) \<ge> m_Priority (transformations w b)) ts"

subsection \<open>Example objects\<close>

text \<open>
  \<open>operator!=\<close> of \<open>int\<close>, and of a floating-point type as far as NaN is
  concerned: \<open>ieee\<close> has NaN and the other values, for which integers stand, and
  \<open>ieee_ne\<close> holds whenever an operand is NaN.
\<close>

definition int_ne :: "int operator_ne" where
  "int_ne a b \<longleftrightarrow> a \<noteq> b"

datatype ieee = NaN | Number int

definition ieee_ne :: "ieee operator_ne" where
  "ieee_ne a b \<longleftrightarrow> a = NaN \<or> b = NaN \<or> a \<noteq> b"

definition times_two :: "int TTransformFunc" where
  "times_two = Some (\<lambda>v. (v * 2, None))"

definition plus_two :: "int TTransformFunc" where
  "plus_two = Some (\<lambda>v. (v + 2, None))"

definition observer :: "'a TValueChangedFunc" where
  "observer = Some (\<lambda>this lastValue val. None)"

text \<open>
  \<open>example_start\<close>: every inspectable is freshly constructed with identity 10, every
  transformation is disabled and has no function, every callback is \<open>observer\<close>.
  \<open>example_world\<close>: the inspectable at address 1 holds the transformations 2
  (priority 1, adds 2) and 1 (priority 0, doubles), the value-changed callbacks 3 and
  4 and the identity-changed callback 5.
\<close>

definition example_start :: "int world" where
  "example_start =
     \<lparr>inspectables = (\<lambda>a. Inspectable_init 10),
      transformations = (\<lambda>a. \<lparr>m_Priority = 0, m_Enabled = False, m_Function = None\<rparr>),
      callbacks = (\<lambda>a. observer),
      calls = []\<rparr>"

definition example_world :: "int world" where
  "example_world =
     \<lparr>inspectables = (\<lambda>a. Inspectable_init 10)
        (1 := \<lparr>m_Identity = 10, m_LastValue = 10, m_Transformations = [2, 1],
               m_IdentityChanged = [5], m_ValueChanged = [3, 4]\<rparr>),
      transformations = (\<lambda>a. \<lparr>m_Priority = 0, m_Enabled = False, m_Function = None\<rparr>)
        (1 := \<lparr>m_Priority = 0, m_Enabled = True, m_Function = times_two\<rparr>,
         2 := \<lparr>m_Priority = 1, m_Enabled = True, m_Function = plus_two\<rparr>),
      callbacks = (\<lambda>a. observer),
      calls = []\<rparr>"

text \<open>
  \<open>stale_priority_world\<close>: three transformations with priorities 5, 3 and 1 are
  registered at the inspectable 1, the priority of the second is then set to 10, and
  the third is removed. \<open>reversed_ties_world\<close>: two transformations of priority 0,
  the doubling one first, are registered with immediate update, where \<open>std::sort\<close>
  is \<open>reversing_sort\<close>.
\<close>

definition stale_priority_world :: "int world" where
  "stale_priority_world =
     (let w1 = fst (AddTransformation_func insertion_sort int_ne 1 1 times_two 5 True False example_start);
          w2 = fst (AddTransformation_func insertion_sort int_ne 1 2 plus_two 3 True False w1);
          w3 = fst (AddTransformation_func insertion_sort int_ne 1 3 plus_two 1 True False w2);
          w4 = update_transformation 2 (Set_transformation plus_two 10 True) w3
      in fst (RemoveTransformation int_ne 1 3 False w4))"

definition reversed_ties_world :: "int world" where
  "reversed_ties_world =
     (let w1 = fst (AddTransformation_func reversing_sort int_ne 1 1 times_two 0 True True example_start)
      in fst (AddTransformation_func reversing_sort int_ne 1 2 plus_two 0 True True w1))"

text \<open>
  \<open>nan_world\<close>: the inspectable 1 is constructed with the identity NaN, has no
  transformation, and the callback 3 is registered for changes of its value.
  \<open>duplicated_world\<close>: the transformation 1 is registered twice with
  \<open>AddTransformation\<close> and then twice with \<open>AddTransformationUnique\<close>.
\<close>

definition nan_world :: "ieee world" where
  "nan_world =
     AddOnValueChanged 1 3
       \<lparr>inspectables = (\<lambda>a. Inspectable_init NaN),
        transformations = (\<lambda>a. \<lparr>m_Priority = 0, m_Enabled = False, m_Function = None\<rparr>),
        callbacks = (\<lambda>a. observer),
        calls = []\<rparr>"

definition duplicated_world :: "int world" where
  "duplicated_world =
     (let w1 = fst (AddTransformation insertion_sort int_ne 1 1 False example_start);
          w2 = fst (AddTransformation insertion_sort int_ne 1 1 False w1);
          w3 = fst (AddTransformationUnique insertion_sort int_ne 1 1 True w2)
      in fst (AddTransformationUnique insertion_sort int_ne 1 1 True w3))"

section \<open>Properties\<close>

subsection \<open>The vector operations\<close>

lemma std_find_end: "std_find xs x = length xs \<longleftrightarrow> x \<notin> set xs"
proof (induction xs)
  case Nil
  show ?case by simp
next
  case (Cons y ys)
  show ?case using Cons.IH by auto
qed

lemma erase_std_find: "x \<in> set xs \<Longrightarrow> erase xs (std_find xs x) = remove1 x xs"
  by (induction xs) (auto simp: erase_def)

lemma mset_linear_insert: "mset (linear_insert cmp xs x) = add_mset x (mset xs)"
  by (induction xs) auto

lemma mset_foldl_linear_insert:
  "mset (foldl (linear_insert cmp) acc xs) = mset acc + mset xs"
  by (induction xs arbitrary: acc) (auto simp: mset_linear_insert)

lemma set_linear_insert: "set (linear_insert cmp xs x) = insert x (set xs)"
  by (induction xs) auto

lemma sorted_linear_insert:
  assumes "strict_weak_order cmp" and "sorted_wrt (\<lambda>a b. \<not> cmp b a) xs"
  shows "sorted_wrt (\<lambda>a b. \<not> cmp b a) (linear_insert cmp xs x)"
  using assms(2)
proof (induction xs)
  case Nil
  show ?case by simp
next
  case (Cons y ys)
  have asym: "\<And>a b. cmp a b \<Longrightarrow> \<not> cmp b a"
    using assms(1) unfolding strict_weak_order_def by blast
  have trans: "\<And>a b c. cmp a b \<Longrightarrow> cmp b c \<Longrightarrow> cmp a c"
    using assms(1) unfolding strict_weak_order_def by blast
  show ?case
  proof (cases "cmp x y")
    case True
    have "\<not> cmp z x" if "z \<in> set ys" for z
    proof
      assume "cmp z x"
      then have "cmp z y" using True trans by blast
      moreover have "\<not> cmp z y" using Cons.prems that by simp
      ultimately show False by simp
    qed
    then show ?thesis using True Cons.prems asym by auto
  next
    case False
    then show ?thesis using Cons by (auto simp: set_linear_insert)
  qed
qed

lemma sorted_foldl_linear_insert:
  "strict_weak_order cmp \<Longrightarrow> sorted_wrt (\<lambda>a b. \<not> cmp b a) acc \<Longrightarrow>
   sorted_wrt (\<lambda>a b. \<not> cmp b a) (foldl (linear_insert cmp) acc xs)"
  by (induction xs arbitrary: acc) (auto simp: sorted_linear_insert)

lemma insertion_sort_contract: "std_sort_contract insertion_sort"
  unfolding std_sort_contract_def insertion_sort_def
  by (simp add: mset_foldl_linear_insert sorted_foldl_linear_insert)

lemma reversing_sort_contract: "std_sort_contract reversing_sort"
  unfolding std_sort_contract_def reversing_sort_def insertion_sort_def
  by (simp add: mset_foldl_linear_insert sorted_foldl_linear_insert)

lemma TransformationPredicate_order: "strict_weak_order (TransformationPredicate w)"
  unfolding strict_weak_order_def TransformationPredicate_def by auto

lemma sorted_wrt_remove1: "sorted_wrt P xs \<Longrightarrow> sorted_wrt P (remove1 x xs)"
proof (induction xs)
  case Nil
  show ?case by simp
next
  case (Cons y ys)
  have "set (remove1 x ys) \<subseteq> set ys" by (rule set_remove1_subset)
  then show ?case using Cons by auto
qed

lemma mset_pair:
  assumes "mset xs = {#a, b#}"
  shows "xs = [a, b] \<or> xs = [b, a]"
proof -
  have "length xs = 2"
    using arg_cong[OF assms, of size] by simp
  then obtain x y where xs: "xs = [x, y]"
    by (auto simp: length_Suc_conv numeral_2_eq_2)
  show ?thesis
    using assms unfolding xs by (auto simp: add_eq_conv_ex)
qed

lemma by_descending_priority_cong:
  "transformations w = transformations w' \<Longrightarrow>
   by_descending_priority w ts = by_descending_priority w' ts"
  by (simp add: by_descending_priority_def)

lemma std_sort_slots:
  assumes "std_sort_contract srt"
  shows "mset (srt (TransformationPredicate w) ts) = mset ts"
    and "by_descending_priority w (srt (TransformationPredicate w) ts)"
proof -
  have c: "mset (srt (TransformationPredicate w) ts) = mset ts \<and>
      sorted_wrt (\<lambda>a b. \<not> TransformationPredicate w b a) (srt (TransformationPredicate w) ts)"
    using assms[unfolded std_sort_contract_def, rule_format, OF TransformationPredicate_order] .
  then show "mset (srt (TransformationPredicate w) ts) = mset ts" by simp
  have "(\<lambda>a b. \<not> TransformationPredicate w b a) =
        (\<lambda>a b. m_Priority (transformations w a) \<ge> m_Priority (transformations w b))"
    by (auto simp: TransformationPredicate_def GetPriority_def fun_eq_iff)
  then show "by_descending_priority w (srt (TransformationPredicate w) ts)"
    using c by (simp add: by_descending_priority_def)
qed

subsection \<open>The recomputation\<close>

lemma apply_transformations_skip:
  "\<not> applicable w t \<Longrightarrow> apply_transformations w (t # ts) v = apply_transformations w ts v"
  by (auto simp: applicable_def IsEnabled_def GetTransformFunc_def)

lemma apply_transformations_call:
  "applicable w t \<Longrightarrow> m_Function (transformations w t) = Some f \<Longrightarrow>
   apply_transformations w (t # ts) v =
     (case f v of (u, None) \<Rightarrow> apply_transformations w ts u | (u, Some e) \<Rightarrow> (u, Some e))"
  by (simp add: applicable_def IsEnabled_def GetTransformFunc_def call_operator_def)

lemma apply_transformations_returns:
  "apply_transformations w ts v = (v', None) \<Longrightarrow>
   v' = fold (\<lambda>t v. fst (the (m_Function (transformations w t)) v)) (filter (applicable w) ts) v"
proof (induction ts arbitrary: v)
  case Nil
  then show ?case by simp
next
  case (Cons t ts)
  show ?case
  proof (cases "applicable w t")
    case False
    then have "apply_transformations w ts v = (v', None)"
      using Cons.prems by (simp add: apply_transformations_skip del: apply_transformations.simps)
    from Cons.IH[OF this] show ?thesis using False by simp
  next
    case True
    then obtain f where f: "m_Function (transformations w t) = Some f"
      by (auto simp: applicable_def)
    obtain u r where fv: "f v = (u, r)" by (cases "f v")
    have step: "apply_transformations w (t # ts) v =
        (case r of None \<Rightarrow> apply_transformations w ts u | Some e \<Rightarrow> (u, Some e))"
      using fv by (simp only: apply_transformations_call[OF True f] prod.case)
    with Cons.prems have r: "r = None" and rest: "apply_transformations w ts u = (v', None)"
      by (auto split: option.splits)
    from Cons.IH[OF rest] show ?thesis using True f fv by simp
  qed
qed

lemma apply_transformations_total:
  "(\<And>t f x. t \<in> set ts \<Longrightarrow> m_Function (transformations w t) = Some f \<Longrightarrow> snd (f x) = None) \<Longrightarrow>
   snd (apply_transformations w ts v) = None"
proof (induction ts arbitrary: v)
  case Nil
  show ?case by simp
next
  case (Cons t ts)
  have rest: "snd (apply_transformations w ts u) = None" for u
  proof (rule Cons.IH)
    fix t' f x
    assume "t' \<in> set ts" and "m_Function (transformations w t') = Some f"
    then show "snd (f x) = None" using Cons.prems[of t' f x] by simp
  qed
  show ?case
  proof (cases "m_Function (transformations w t)")
    case None
    then show ?thesis using rest by (simp add: GetTransformFunc_def)
  next
    case (Some f)
    then have "snd (f v) = None" using Cons.prems[of t f v] by simp
    then show ?thesis using Some rest
      by (cases "f v") (simp add: GetTransformFunc_def call_operator_def)
  qed
qed

lemma notify_returns:
  "notify fs this a b w = (w', None) \<Longrightarrow>
   w' = w\<lparr>calls := calls w @ record_calls fs this a b\<rparr>"
proof (induction fs arbitrary: w)
  case Nil
  then show ?case by (simp add: record_calls_def)
next
  case (Cons f fs)
  from Cons.prems obtain g where g: "callbacks w f = Some g"
    by (cases "callbacks w f") (auto simp: invoke_def)
  let ?w1 = "w\<lparr>calls := calls w @ [(f, this, a, b)]\<rparr>"
  from Cons.prems g have "g this a b = None" and rest: "notify fs this a b ?w1 = (w', None)"
    by (auto simp: invoke_def split: option.splits)
  from Cons.IH[OF rest] show ?case by (simp add: record_calls_def)
qed

lemma notify_total:
  "(\<And>f. f \<in> set fs \<Longrightarrow> \<exists>g. callbacks w f = Some g \<and> g this a b = None) \<Longrightarrow>
   snd (notify fs this a b w) = None"
proof (induction fs arbitrary: w)
  case Nil
  show ?case by simp
next
  case (Cons f fs)
  from Cons.prems obtain g where g: "callbacks w f = Some g" "g this a b = None"
    by auto
  let ?w1 = "w\<lparr>calls := calls w @ [(f, this, a, b)]\<rparr>"
  have "snd (notify fs this a b ?w1) = None"
    using Cons.prems by (intro Cons.IH) simp
  then show ?case using g by (simp add: invoke_def)
qed

lemma notify_frame:
  "inspectables (fst (notify fs this a b w)) = inspectables w \<and>
   transformations (fst (notify fs this a b w)) = transformations w \<and>
   callbacks (fst (notify fs this a b w)) = callbacks w"
proof (induction fs arbitrary: w)
  case Nil
  show ?case by simp
next
  case (Cons f fs)
  show ?case
  proof (cases "callbacks w f")
    case None
    then show ?thesis by (simp add: invoke_def)
  next
    case (Some g)
    then show ?thesis using Cons.IH[of "w\<lparr>calls := calls w @ [(f, this, a, b)]\<rparr>"]
      by (cases "g this a b") (simp_all add: invoke_def)
  qed
qed

lemma ForceUpdate_returns:
  assumes "ForceUpdate ne this w = (w', None)"
  shows "w' = w\<lparr>inspectables := (inspectables w)
                  (this := (inspectables w this)\<lparr>m_LastValue := derived_value w this\<rparr>),
                calls := calls w @
                  (if ne (m_LastValue (inspectables w this)) (derived_value w this)
                   then record_calls (m_ValueChanged (inspectables w this)) this
                          (m_LastValue (inspectables w this)) (derived_value w this)
                   else [])\<rparr>"
proof -
  let ?c = "inspectables w this"
  obtain v r where walk: "apply_transformations w (m_Transformations ?c) (m_Identity ?c) = (v, r)"
    by (cases "apply_transformations w (m_Transformations ?c) (m_Identity ?c)")
  have r: "r = None"
    using assms walk by (cases r) (simp_all add: ForceUpdate_def Let_def)
  have v: "v = derived_value w this"
    unfolding derived_value_def using walk r by (intro apply_transformations_returns) simp
  let ?w1 = "update_inspectable this (\<lambda>c. c\<lparr>m_LastValue := v\<rparr>) w"
  show ?thesis
  proof (cases "ne (m_LastValue ?c) v")
    case False
    then have "w' = ?w1"
      using assms walk r by (simp add: ForceUpdate_def Let_def)
    then show ?thesis using False v by (simp add: update_inspectable_def)
  next
    case True
    then have "notify (m_ValueChanged (inspectables ?w1 this)) this (m_LastValue ?c) v ?w1 = (w', None)"
      using assms walk r by (simp add: ForceUpdate_def Let_def)
    from notify_returns[OF this] show ?thesis
      using True v by (simp add: update_inspectable_def)
  qed
qed

lemma ForceUpdate_total:
  assumes "\<And>t f x. t \<in> set (m_Transformations (inspectables w this)) \<Longrightarrow>
              m_Function (transformations w t) = Some f \<Longrightarrow> snd (f x) = None"
    and "\<And>f a b. f \<in> set (m_ValueChanged (inspectables w this)) \<Longrightarrow>
              \<exists>g. callbacks w f = Some g \<and> g this a b = None"
  shows "snd (ForceUpdate ne this w) = None"
proof -
  let ?c = "inspectables w this"
  obtain v r where walk: "apply_transformations w (m_Transformations ?c) (m_Identity ?c) = (v, r)"
    by (cases "apply_transformations w (m_Transformations ?c) (m_Identity ?c)")
  have "snd (apply_transformations w (m_Transformations ?c) (m_Identity ?c)) = None"
    using assms(1) by (rule apply_transformations_total)
  then have r: "r = None" using walk by simp
  let ?w1 = "update_inspectable this (\<lambda>c. c\<lparr>m_LastValue := v\<rparr>) w"
  have "snd (notify (m_ValueChanged (inspectables ?w1 this)) this (m_LastValue ?c) v ?w1) = None"
    by (rule notify_total) (use assms(2) in \<open>simp add: update_inspectable_def\<close>)
  then show ?thesis using walk r by (simp add: ForceUpdate_def Let_def)
qed

lemma ForceUpdate_frame:
  "transformations (fst (ForceUpdate ne this w)) = transformations w"
  "callbacks (fst (ForceUpdate ne this w)) = callbacks w"
  "\<exists>v. inspectables (fst (ForceUpdate ne this w)) =
         (inspectables w)(this := (inspectables w this)\<lparr>m_LastValue := v\<rparr>)"
proof -
  let ?c = "inspectables w this"
  obtain v r where walk: "apply_transformations w (m_Transformations ?c) (m_Identity ?c) = (v, r)"
    by (cases "apply_transformations w (m_Transformations ?c) (m_Identity ?c)")
  let ?w1 = "update_inspectable this (\<lambda>c. c\<lparr>m_LastValue := v\<rparr>) w"
  let ?n = "notify (m_ValueChanged (inspectables ?w1 this)) this (m_LastValue ?c) v ?w1"
  have cases: "fst (ForceUpdate ne this w) = w \<or> fst (ForceUpdate ne this w) = ?w1
      \<or> fst (ForceUpdate ne this w) = fst ?n"
    using walk by (cases r) (simp_all add: ForceUpdate_def Let_def)
  have same: "(inspectables w)(this := ?c\<lparr>m_LastValue := m_LastValue ?c\<rparr>) = inspectables w"
    by simp
  show "transformations (fst (ForceUpdate ne this w)) = transformations w"
    using cases notify_frame[of "m_ValueChanged (inspectables ?w1 this)" this "m_LastValue ?c" v ?w1]
    by (auto simp: update_inspectable_def)
  show "callbacks (fst (ForceUpdate ne this w)) = callbacks w"
    using cases notify_frame[of "m_ValueChanged (inspectables ?w1 this)" this "m_LastValue ?c" v ?w1]
    by (auto simp: update_inspectable_def)
  show "\<exists>v. inspectables (fst (ForceUpdate ne this w)) =
         (inspectables w)(this := (inspectables w this)\<lparr>m_LastValue := v\<rparr>)"
    using cases notify_frame[of "m_ValueChanged (inspectables ?w1 this)" this "m_LastValue ?c" v ?w1] same
    by (metis update_inspectable_def world.select_convs(1) world.surjective world.update_convs(1))
qed

lemma apply_transformations_cong:
  "transformations w = transformations w' \<Longrightarrow>
   apply_transformations w ts v = apply_transformations w' ts v"
  by (induction ts arbitrary: v) (auto split: prod.splits option.splits)

lemma ForceUpdate_repeated_fixed:
  "fst (ForceUpdate ne this w) = w \<Longrightarrow> ForceUpdate_repeated ne n this w = w"
  by (induction n) simp_all

lemma ForceUpdate_value:
  assumes "apply_transformations w (m_Transformations (inspectables w this))
             (m_Identity (inspectables w this)) = (v, None)"
  shows "m_LastValue (inspectables (fst (ForceUpdate ne this w)) this) = v"
proof -
  let ?w1 = "update_inspectable this (\<lambda>c. c\<lparr>m_LastValue := v\<rparr>) w"
  let ?n = "notify (m_ValueChanged (inspectables ?w1 this)) this
              (m_LastValue (inspectables w this)) v ?w1"
  have "fst (ForceUpdate ne this w) = ?w1 \<or> fst (ForceUpdate ne this w) = fst ?n"
    using assms by (simp add: ForceUpdate_def Let_def)
  moreover have "inspectables (fst ?n) = inspectables ?w1"
    by (rule conjunct1[OF notify_frame])
  ultimately have "inspectables (fst (ForceUpdate ne this w)) = inspectables ?w1"
    by auto
  then show ?thesis by (simp add: update_inspectable_def)
qed

lemma ForceUpdate_keeps_vectors:
  "m_Transformations (inspectables (fst (ForceUpdate ne this w)) c) = m_Transformations (inspectables w c)"
  "m_Identity (inspectables (fst (ForceUpdate ne this w)) c) = m_Identity (inspectables w c)"
  "m_ValueChanged (inspectables (fst (ForceUpdate ne this w)) c) = m_ValueChanged (inspectables w c)"
  "m_IdentityChanged (inspectables (fst (ForceUpdate ne this w)) c) = m_IdentityChanged (inspectables w c)"
proof -
  from ForceUpdate_frame(3)[of ne this w] obtain v where eq:
    "inspectables (fst (ForceUpdate ne this w)) =
       (inspectables w)(this := (inspectables w this)\<lparr>m_LastValue := v\<rparr>)" ..
  show "m_Transformations (inspectables (fst (ForceUpdate ne this w)) c) = m_Transformations (inspectables w c)"
    unfolding eq by simp
  show "m_Identity (inspectables (fst (ForceUpdate ne this w)) c) = m_Identity (inspectables w c)"
    unfolding eq by simp
  show "m_ValueChanged (inspectables (fst (ForceUpdate ne this w)) c) = m_ValueChanged (inspectables w c)"
    unfolding eq by simp
  show "m_IdentityChanged (inspectables (fst (ForceUpdate ne this w)) c) = m_IdentityChanged (inspectables w c)"
    unfolding eq by simp
qed

lemma ForceUpdate_throws:
  assumes "apply_transformations w (m_Transformations (inspectables w this))
             (m_Identity (inspectables w this)) = (v, Some e)"
  shows "ForceUpdate ne this w = (w, Some e)"
  using assms by (simp add: ForceUpdate_def Let_def)

lemma ForceUpdate_settled:
  assumes "apply_transformations w (m_Transformations (inspectables w this))
             (m_Identity (inspectables w this)) = (m_LastValue (inspectables w this), None)"
    and "\<not> ne (m_LastValue (inspectables w this)) (m_LastValue (inspectables w this))"
  shows "ForceUpdate ne this w = (w, None)"
proof -
  have "update_inspectable this (\<lambda>c. c\<lparr>m_LastValue := m_LastValue (inspectables w this)\<rparr>) w = w"
    by (simp add: update_inspectable_def)
  then show ?thesis using assms by (simp add: ForceUpdate_def Let_def)
qed

text \<open>The loop of a second \<open>ForceUpdate\<close> is the loop of the first.\<close>

lemma walk_after_ForceUpdate:
  "apply_transformations (fst (ForceUpdate ne this w))
     (m_Transformations (inspectables (fst (ForceUpdate ne this w)) this))
     (m_Identity (inspectables (fst (ForceUpdate ne this w)) this)) =
   apply_transformations w (m_Transformations (inspectables w this))
     (m_Identity (inspectables w this))"
  unfolding ForceUpdate_keeps_vectors
  by (rule apply_transformations_cong) (rule ForceUpdate_frame(1))

lemma ForceUpdate_twice_value:
  "m_LastValue (inspectables (fst (ForceUpdate ne this (fst (ForceUpdate ne this w)))) this) =
   m_LastValue (inspectables (fst (ForceUpdate ne this w)) this)"
proof -
  let ?c = "inspectables w this"
  let ?w2 = "fst (ForceUpdate ne this w)"
  obtain v r where walk: "apply_transformations w (m_Transformations ?c) (m_Identity ?c) = (v, r)"
    by (cases "apply_transformations w (m_Transformations ?c) (m_Identity ?c)")
  have walk2: "apply_transformations ?w2 (m_Transformations (inspectables ?w2 this))
      (m_Identity (inspectables ?w2 this)) = (v, r)"
    using walk by (simp only: walk_after_ForceUpdate)
  show ?thesis
  proof (cases r)
    case (Some e)
    have "?w2 = w"
      using ForceUpdate_throws[OF walk[unfolded Some]] by simp
    then show ?thesis by simp
  next
    case None
    have "m_LastValue (inspectables (fst (ForceUpdate ne this ?w2)) this) = v"
      by (rule ForceUpdate_value[OF walk2[unfolded None]])
    moreover have "m_LastValue (inspectables ?w2 this) = v"
      by (rule ForceUpdate_value[OF walk[unfolded None]])
    ultimately show ?thesis by simp
  qed
qed

lemma ForceUpdate_twice:
  assumes "\<not> ne (m_LastValue (inspectables (fst (ForceUpdate ne this w)) this))
               (m_LastValue (inspectables (fst (ForceUpdate ne this w)) this))"
  shows "fst (ForceUpdate ne this (fst (ForceUpdate ne this w))) = fst (ForceUpdate ne this w)"
proof -
  let ?c = "inspectables w this"
  let ?w2 = "fst (ForceUpdate ne this w)"
  obtain v r where walk: "apply_transformations w (m_Transformations ?c) (m_Identity ?c) = (v, r)"
    by (cases "apply_transformations w (m_Transformations ?c) (m_Identity ?c)")
  have walk2: "apply_transformations ?w2 (m_Transformations (inspectables ?w2 this))
      (m_Identity (inspectables ?w2 this)) = (v, r)"
    using walk by (simp only: walk_after_ForceUpdate)
  show ?thesis
  proof (cases r)
    case (Some e)
    have "?w2 = w"
      using ForceUpdate_throws[OF walk[unfolded Some]] by simp
    then show ?thesis by simp
  next
    case None
    have v: "m_LastValue (inspectables ?w2 this) = v"
      by (rule ForceUpdate_value[OF walk[unfolded None]])
    have "ForceUpdate ne this ?w2 = (?w2, None)"
    proof (rule ForceUpdate_settled)
      show "apply_transformations ?w2 (m_Transformations (inspectables ?w2 this))
          (m_Identity (inspectables ?w2 this)) = (m_LastValue (inspectables ?w2 this), None)"
        using walk2 None v by simp
      show "\<not> ne (m_LastValue (inspectables ?w2 this)) (m_LastValue (inspectables ?w2 this))"
        by (rule assms)
    qed
    then show ?thesis by simp
  qed
qed

lemma ForceUpdate_repeated_value:
  "m_LastValue (inspectables (ForceUpdate_repeated ne (Suc n) this w) this) =
   m_LastValue (inspectables (fst (ForceUpdate ne this w)) this)"
proof (induction n arbitrary: w)
  case 0
  show ?case by simp
next
  case (Suc n)
  have "ForceUpdate_repeated ne (Suc (Suc n)) this w =
        ForceUpdate_repeated ne (Suc n) this (fst (ForceUpdate ne this w))"
    by simp
  then show ?case
    by (simp only: Suc.IH ForceUpdate_twice_value)
qed

subsection \<open>Registration\<close>

text \<open>The world after the push_back and the sort, before the optional update.\<close>

lemma added_and_sorted:
  "SortTransformations srt this
     (update_inspectable this
        (\<lambda>c. c\<lparr>m_Transformations := push_back (m_Transformations c) t\<rparr>) w) =
   update_inspectable this
     (\<lambda>c. c\<lparr>m_Transformations :=
              srt (TransformationPredicate w) (m_Transformations (inspectables w this) @ [t])\<rparr>) w"
proof -
  let ?w1 = "update_inspectable this
        (\<lambda>c. c\<lparr>m_Transformations := push_back (m_Transformations c) t\<rparr>) w"
  have "TransformationPredicate ?w1 = TransformationPredicate w"
    by (simp add: TransformationPredicate_def update_inspectable_def fun_eq_iff)
  then show ?thesis
    by (simp add: SortTransformations_def) (simp add: update_inspectable_def push_back_def)
qed

lemma AddTransformation_vector:
  assumes "t \<noteq> nullptr"
  shows "m_Transformations (inspectables (fst (AddTransformation srt ne this t u w)) this) =
           srt (TransformationPredicate w) (m_Transformations (inspectables w this) @ [t])"
    and "transformations (fst (AddTransformation srt ne this t u w)) = transformations w"
proof -
  let ?w2 = "update_inspectable this
     (\<lambda>c. c\<lparr>m_Transformations :=
              srt (TransformationPredicate w) (m_Transformations (inspectables w this) @ [t])\<rparr>) w"
  have r: "AddTransformation srt ne this t u w = (if u then ForceUpdate ne this ?w2 else (?w2, None))"
    using assms by (simp add: AddTransformation_def Let_def added_and_sorted)
  show "m_Transformations (inspectables (fst (AddTransformation srt ne this t u w)) this) =
           srt (TransformationPredicate w) (m_Transformations (inspectables w this) @ [t])"
    unfolding r by (cases u) (simp_all add: ForceUpdate_keeps_vectors, simp_all add: update_inspectable_def)
  show "transformations (fst (AddTransformation srt ne this t u w)) = transformations w"
    unfolding r by (cases u) (simp_all add: ForceUpdate_frame, simp_all add: update_inspectable_def)
qed

lemma AddTransformationUnique_absent:
  assumes "t \<noteq> nullptr" and "t \<notin> set (m_Transformations (inspectables w this))"
  shows "AddTransformationUnique srt ne this t u w = AddTransformation srt ne this t u w"
  using assms by (simp add: AddTransformationUnique_def AddTransformation_def std_find_end)

lemma AddTransformationUnique_present:
  assumes "t \<in> set (m_Transformations (inspectables w this))"
  shows "AddTransformationUnique srt ne this t u w = (w, None)"
  using assms by (simp add: AddTransformationUnique_def std_find_end)

lemma sorted_pair:
  assumes "std_sort_contract srt"
    and "m_Priority (transformations w a) < m_Priority (transformations w b)"
  shows "srt (TransformationPredicate w) [a, b] = [b, a]"
proof -
  let ?r = "srt (TransformationPredicate w) [a, b]"
  have "mset ?r = {#a, b#}"
    using std_sort_slots(1)[OF assms(1), of w "[a, b]"] by simp
  then have "?r = [a, b] \<or> ?r = [b, a]" by (rule mset_pair)
  moreover have "by_descending_priority w ?r"
    by (rule std_sort_slots(2)[OF assms(1)])
  moreover have "\<not> by_descending_priority w [a, b]"
    using assms(2) by (simp add: by_descending_priority_def)
  ultimately show ?thesis by auto
qed

lemma sorted_single:
  assumes "std_sort_contract srt"
  shows "srt (TransformationPredicate w) [a] = [a]"
  using std_sort_slots(1)[OF assms, of w "[a]"] by simp

lemma RemoveTransformation_vector:
  "m_Transformations (inspectables (fst (RemoveTransformation ne this t u w)) this) =
     (if t = nullptr then m_Transformations (inspectables w this)
      else remove1 t (m_Transformations (inspectables w this)))"
  "transformations (fst (RemoveTransformation ne this t u w)) = transformations w"
proof -
  let ?ts = "m_Transformations (inspectables w this)"
  let ?w1 = "update_inspectable this (\<lambda>c. c\<lparr>m_Transformations := remove1 t ?ts\<rparr>) w"
  have r: "RemoveTransformation ne this t u w =
      (if t \<noteq> nullptr \<and> t \<in> set ?ts
       then (if u then ForceUpdate ne this ?w1 else (?w1, None)) else (w, None))"
    by (simp add: RemoveTransformation_def Let_def std_find_end erase_std_find
        update_inspectable_def)
  have absent: "t \<notin> set ?ts \<Longrightarrow> remove1 t ?ts = ?ts"
    by (rule remove1_idem)
  show "m_Transformations (inspectables (fst (RemoveTransformation ne this t u w)) this) =
     (if t = nullptr then ?ts else remove1 t ?ts)"
    unfolding r using absent
    by (simp add: ForceUpdate_keeps_vectors) (simp add: update_inspectable_def)
  show "transformations (fst (RemoveTransformation ne this t u w)) = transformations w"
    unfolding r by (simp add: ForceUpdate_frame) (simp add: update_inspectable_def)
qed

subsection \<open>Evaluation\<close>

lemmas inspectable_defs =
  ForceUpdate_def SetIdentity_def GetValue_def AddTransformation_def
  AddTransformation_func_def AddTransformationUnique_def RemoveTransformation_def
  SortTransformations_def TransformationPredicate_def update_inspectable_def
  update_transformation_def Set_transformation_def IsEnabled_def GetPriority_def
  GetTransformFunc_def call_operator_def invoke_def push_back_def erase_def nullptr_def
  Inspectable_init_def Let_def

lemmas example_defs =
  example_start_def example_world_def times_two_def plus_two_def observer_def
  derived_value_def applicable_def record_calls_def by_descending_priority_def
  insertion_sort_def reversing_sort_def int_ne_def

section \<open>The claims\<close>

text \<open>
  C1. When \<open>ForceUpdate\<close> returns, the cached value is the identity with the
  transformations applied that are enabled and have a function, in the order of
  \<open>m_Transformations\<close>; every value-changed callback has been called with
  \<open>(this, previous cached value, new cached value)\<close>, in the order of
  \<open>m_ValueChanged\<close>, if the previous cached value and the new one are unequal by
  \<open>operator!=\<close>, and none has been called if they are not; nothing else has changed.
\<close>

theorem ForceUpdate_recomputes_and_notifies:
  assumes "ForceUpdate ne this w = (w', None)"
  shows "m_LastValue (inspectables w' this) = derived_value w this \<and>
         calls w' = calls w @
           (if ne (m_LastValue (inspectables w this)) (derived_value w this)
            then record_calls (m_ValueChanged (inspectables w this)) this
                   (m_LastValue (inspectables w this)) (derived_value w this)
            else []) \<and>
         w' = w\<lparr>inspectables := (inspectables w)
                  (this := (inspectables w this)\<lparr>m_LastValue := derived_value w this\<rparr>),
                calls := calls w'\<rparr>"
  using ForceUpdate_returns[OF assms] by (cases w) auto

theorem ForceUpdate_recomputes_and_notifies_witness:
  "ForceUpdate int_ne 1 example_world = (fst (ForceUpdate int_ne 1 example_world), None) \<and>
   m_LastValue (inspectables (fst (ForceUpdate int_ne 1 example_world)) 1) = 24 \<and>
   calls (fst (ForceUpdate int_ne 1 example_world)) = [(3, 1, 10, 24), (4, 1, 10, 24)]"
proof -
  have h: "ForceUpdate int_ne 1 example_world = (fst (ForceUpdate int_ne 1 example_world), None)"
    by (simp add: inspectable_defs example_defs)
  have d: "derived_value example_world 1 = 24"
    by (simp add: inspectable_defs example_defs)
  show ?thesis
    using h ForceUpdate_recomputes_and_notifies[OF h] d
    by (simp add: record_calls_def example_world_def int_ne_def)
qed

text \<open>
  C2, as stated, fails in two ways. \<open>RemoveTransformation\<close> does not sort: when the
  priority of a registered transformation has been set anew since the last
  registration, the vector it leaves is not in descending order of priority
  (\<open>stale_priority_world\<close>). And \<open>std::sort\<close> is free to reorder transformations of
  equal priority: with a sort that keeps the contract of \<open>std::sort\<close> the
  transformation registered second comes first (\<open>reversed_ties_world\<close>), and the
  value of the example in the README, 10 doubled and then increased by 2, becomes 24
  instead of 22.
\<close>

theorem registration_order_counterexample:
  "m_Transformations (inspectables stale_priority_world 1) = [1, 2] \<and>
   \<not> by_descending_priority stale_priority_world
       (m_Transformations (inspectables stale_priority_world 1)) \<and>
   std_sort_contract (reversing_sort :: addr std_sort) \<and>
   m_Transformations (inspectables reversed_ties_world 1) = [2, 1] \<and>
   m_Priority (transformations reversed_ties_world 1) =
     m_Priority (transformations reversed_ties_world 2) \<and>
   m_LastValue (inspectables reversed_ties_world 1) = 24"
proof -
  have 1: "m_Transformations (inspectables stale_priority_world 1) = [1, 2]"
    by (simp add: stale_priority_world_def inspectable_defs example_defs)
  have 2: "\<not> by_descending_priority stale_priority_world [1, 2]"
    by (simp add: stale_priority_world_def inspectable_defs example_defs)
  have 3: "m_Transformations (inspectables reversed_ties_world 1) = [2, 1]"
    by (simp add: reversed_ties_world_def inspectable_defs example_defs)
  have 4: "m_Priority (transformations reversed_ties_world 1) =
     m_Priority (transformations reversed_ties_world 2)"
    by (simp add: reversed_ties_world_def inspectable_defs example_defs)
  have 5: "m_LastValue (inspectables reversed_ties_world 1) = 24"
    by (simp add: reversed_ties_world_def inspectable_defs example_defs)
  show ?thesis
    using 1 2 3 4 5 reversing_sort_contract by simp
qed

text \<open>
  C2, amended. When \<open>AddTransformation\<close> (of a non-null pointer) or
  \<open>AddTransformationUnique\<close> (of a non-null pointer that is not registered) has run,
  \<open>m_Transformations\<close> holds the pointers it held before and the new one, in an
  order in which no transformation precedes one of higher priority, for the priorities
  as they are at that call. \<open>RemoveTransformation\<close> removes the first occurrence of
  the pointer and does not sort: a vector that was in that order before is in that
  order after. Nothing is said about the order of transformations of equal priority.
\<close>

theorem registration_order:
  assumes "std_sort_contract srt"
  shows
    "(t \<noteq> nullptr \<longrightarrow>
        (let w' = fst (AddTransformation srt ne this t u w) in
           mset (m_Transformations (inspectables w' this)) =
             add_mset t (mset (m_Transformations (inspectables w this))) \<and>
           by_descending_priority w' (m_Transformations (inspectables w' this)))) \<and>
     (t \<noteq> nullptr \<and> t \<notin> set (m_Transformations (inspectables w this)) \<longrightarrow>
        (let w' = fst (AddTransformationUnique srt ne this t u w) in
           mset (m_Transformations (inspectables w' this)) =
             add_mset t (mset (m_Transformations (inspectables w this))) \<and>
           by_descending_priority w' (m_Transformations (inspectables w' this)))) \<and>
     (let w' = fst (RemoveTransformation ne this t u w) in
        m_Transformations (inspectables w' this) =
          (if t = nullptr then m_Transformations (inspectables w this)
           else remove1 t (m_Transformations (inspectables w this))) \<and>
        (by_descending_priority w (m_Transformations (inspectables w this)) \<longrightarrow>
           by_descending_priority w' (m_Transformations (inspectables w' this))))"
proof -
  let ?old = "m_Transformations (inspectables w this)"
  have add: "mset (m_Transformations (inspectables (fst (AddTransformation srt ne this t u w)) this)) =
             add_mset t (mset ?old) \<and>
           by_descending_priority (fst (AddTransformation srt ne this t u w))
             (m_Transformations (inspectables (fst (AddTransformation srt ne this t u w)) this))"
    if "t \<noteq> nullptr"
  proof -
    let ?w' = "fst (AddTransformation srt ne this t u w)"
    have ts: "m_Transformations (inspectables ?w' this) =
        srt (TransformationPredicate w) (?old @ [t])"
      by (rule AddTransformation_vector(1)[OF that])
    have tr: "transformations ?w' = transformations w"
      by (rule AddTransformation_vector(2)[OF that])
    have "by_descending_priority w (srt (TransformationPredicate w) (?old @ [t]))"
      by (rule std_sort_slots(2)[OF assms])
    then have "by_descending_priority ?w' (srt (TransformationPredicate w) (?old @ [t]))"
      by (simp add: by_descending_priority_cong[OF tr])
    moreover have "mset (srt (TransformationPredicate w) (?old @ [t])) = add_mset t (mset ?old)"
      using std_sort_slots(1)[OF assms, of w "?old @ [t]"] by simp
    ultimately show ?thesis unfolding ts by simp
  qed
  have rem: "by_descending_priority (fst (RemoveTransformation ne this t u w))
               (m_Transformations (inspectables (fst (RemoveTransformation ne this t u w)) this))"
    if "by_descending_priority w ?old"
  proof -
    let ?w' = "fst (RemoveTransformation ne this t u w)"
    have "by_descending_priority w (if t = nullptr then ?old else remove1 t ?old)"
      using that by (simp add: by_descending_priority_def sorted_wrt_remove1)
    then show ?thesis
      by (simp add: RemoveTransformation_vector(1)
          by_descending_priority_cong[OF RemoveTransformation_vector(2)])
  qed
  show ?thesis
    unfolding Let_def
    using add rem RemoveTransformation_vector(1)[of ne this t u w]
    by (simp add: AddTransformationUnique_absent)
qed

theorem registration_order_witness:
  "std_sort_contract (insertion_sort :: addr std_sort) \<and> (3::nat) \<noteq> nullptr \<and>
   3 \<notin> set (m_Transformations (inspectables example_world 1)) \<and>
   by_descending_priority example_world (m_Transformations (inspectables example_world 1)) \<and>
   mset (m_Transformations (inspectables
      (fst (AddTransformation insertion_sort int_ne 1 3 False example_world)) 1)) = {#3, 2, 1#} \<and>
   by_descending_priority (fst (AddTransformation insertion_sort int_ne 1 3 False example_world))
     (m_Transformations (inspectables
        (fst (AddTransformation insertion_sort int_ne 1 3 False example_world)) 1)) \<and>
   mset (m_Transformations (inspectables
      (fst (AddTransformationUnique insertion_sort int_ne 1 3 False example_world)) 1)) = {#3, 2, 1#} \<and>
   m_Transformations (inspectables (fst (RemoveTransformation int_ne 1 2 False example_world)) 1) = [1] \<and>
   by_descending_priority (fst (RemoveTransformation int_ne 1 2 False example_world))
     (m_Transformations (inspectables (fst (RemoveTransformation int_ne 1 2 False example_world)) 1))"
proof -
  have n: "(3::nat) \<noteq> nullptr" "(2::nat) \<noteq> nullptr" by (simp_all add: nullptr_def)
  have ts: "m_Transformations (inspectables example_world 1) = [2, 1]"
    by (simp add: example_world_def)
  have a: "3 \<notin> set (m_Transformations (inspectables example_world 1))"
    unfolding ts by simp
  have d: "by_descending_priority example_world (m_Transformations (inspectables example_world 1))"
    unfolding ts by (simp add: example_world_def by_descending_priority_def)
  note add = registration_order[OF insertion_sort_contract, where ne = int_ne and t = 3 and this = 1
      and u = False and w = example_world,
      unfolded Let_def ts]
  note rem = registration_order[OF insertion_sort_contract, where ne = int_ne and t = 2 and this = 1
      and u = False and w = example_world,
      unfolded Let_def ts]
  have 1: "mset (m_Transformations (inspectables
      (fst (AddTransformation insertion_sort int_ne 1 3 False example_world)) 1)) = {#3, 2, 1#}"
    "by_descending_priority (fst (AddTransformation insertion_sort int_ne 1 3 False example_world))
     (m_Transformations (inspectables
        (fst (AddTransformation insertion_sort int_ne 1 3 False example_world)) 1))"
    using add n(1) by simp_all
  have 2: "mset (m_Transformations (inspectables
      (fst (AddTransformationUnique insertion_sort int_ne 1 3 False example_world)) 1)) = {#3, 2, 1#}"
    using add n(1) a[unfolded ts] by simp
  have 3: "m_Transformations (inspectables (fst (RemoveTransformation int_ne 1 2 False example_world)) 1) = [1]"
    using rem n(2) by simp
  have 4: "by_descending_priority (fst (RemoveTransformation int_ne 1 2 False example_world))
     (m_Transformations (inspectables (fst (RemoveTransformation int_ne 1 2 False example_world)) 1))"
    using rem d[unfolded ts] by blast
  from insertion_sort_contract n(1) a d 1 2 3 4 show ?thesis by (intro conjI)
qed

text \<open>
  C3, as stated, fails: the call operator of a transformation without a function is not
  a no-op. It leaves the value as it is and throws \<open>std::bad_function_call\<close>.
\<close>

theorem call_operator_unbound_counterexample:
  "call_operator \<lparr>m_Priority = 0, m_Enabled = True, m_Function = None\<rparr> (5::int)
     = (5, Some bad_function_call)"
  by (simp add: call_operator_def)

text \<open>
  C3, amended. The call operator of a transformation without a function leaves the
  value unchanged and throws \<open>std::bad_function_call\<close>; with a function \<open>f\<close> it is
  the call of \<open>f\<close>: the value is what \<open>f\<close> leaves in place and the exception, if
  any, is the one \<open>f\<close> throws. The test for a missing function is in the loop of
  \<open>ForceUpdate\<close>, which passes over such a transformation without calling it.
\<close>

theorem call_operator_bound_or_throws:
  "(m_Function t = None \<longrightarrow> call_operator t input = (input, Some bad_function_call)) \<and>
   (\<forall>f. m_Function t = Some f \<longrightarrow> call_operator t input = f input) \<and>
   (m_Function (transformations w a) = None \<longrightarrow>
      apply_transformations w (a # rest) input = apply_transformations w rest input)"
  by (simp add: call_operator_def GetTransformFunc_def)

theorem call_operator_bound_or_throws_witness:
  "call_operator \<lparr>m_Priority = 0, m_Enabled = True, m_Function = None\<rparr> (5::int)
     = (5, Some bad_function_call) \<and>
   call_operator \<lparr>m_Priority = 0, m_Enabled = True, m_Function = times_two\<rparr> 5
     = (10, None) \<and>
   call_operator \<lparr>m_Priority = 0, m_Enabled = True,
       m_Function = Some (\<lambda>v. (v + 1, Some (host_exception ''late'')))\<rparr> (5::int)
     = (6, Some (host_exception ''late'')) \<and>
   apply_transformations example_start [7, 8] 5 = (5, None)"
proof -
  let ?u = "\<lparr>m_Priority = 0, m_Enabled = True, m_Function = None\<rparr> :: int InspectableTransformation"
  let ?b = "\<lparr>m_Priority = 0, m_Enabled = True, m_Function = times_two\<rparr>"
  let ?f = "\<lambda>v::int. (v + 1, Some (host_exception ''late''))"
  let ?t = "\<lparr>m_Priority = 0, m_Enabled = True, m_Function = Some ?f\<rparr>"
  have u: "m_Function ?u = None" by simp
  have b: "m_Function ?b = Some (\<lambda>v. (v * 2, None))" by (simp add: times_two_def)
  have t: "m_Function ?t = Some ?f" by simp
  have e: "m_Function (transformations example_start 7) = None"
          "m_Function (transformations example_start 8) = None"
    by (simp_all add: example_start_def)
  show ?thesis
    using call_operator_bound_or_throws[of ?u 5 example_start 7 "[8]"] u
      call_operator_bound_or_throws[of ?b 5 example_start 8 "[]"] b
      call_operator_bound_or_throws[of ?t 5 example_start 8 "[]"] t e
    by simp
qed

text \<open>
  C4. \<open>SetIdentity\<close> with a value equal to the current identity (one for which
  \<open>m_Identity != value\<close> is false) does nothing at all. With an unequal value, when
  it returns: the identity has been assigned; if \<open>andUpdate\<close> is set,
  \<open>ForceUpdate\<close> has run on the world with the new identity and returned; after that
  every identity-changed callback has been called with
  \<open>(this, previous identity, new identity)\<close> in the order of \<open>m_IdentityChanged\<close>.
  In \<open>calls\<close> the calls of the value-changed callbacks come before those of the
  identity-changed callbacks.
\<close>

theorem SetIdentity_updates_then_notifies:
  "(\<not> ne (m_Identity (inspectables w this)) val \<longrightarrow>
      SetIdentity ne this val andUpdate w = (w, None)) \<and>
   (ne (m_Identity (inspectables w this)) val \<and>
    SetIdentity ne this val andUpdate w = (w', None) \<longrightarrow>
      (let w1 = update_inspectable this (\<lambda>c. c\<lparr>m_Identity := val\<rparr>) w;
           w2 = (if andUpdate then fst (ForceUpdate ne this w1) else w1);
           previous = m_LastValue (inspectables w this);
           recomputed = derived_value w1 this
       in (andUpdate \<longrightarrow> snd (ForceUpdate ne this w1) = None) \<and>
          w' = w2\<lparr>calls := calls w2 @
                   record_calls (m_IdentityChanged (inspectables w this)) this
                     (m_Identity (inspectables w this)) val\<rparr> \<and>
          calls w' = calls w @
            (if andUpdate \<and> ne previous recomputed
             then record_calls (m_ValueChanged (inspectables w this)) this previous recomputed
             else []) @
            record_calls (m_IdentityChanged (inspectables w this)) this
              (m_Identity (inspectables w this)) val \<and>
          m_Identity (inspectables w' this) = val \<and>
          m_LastValue (inspectables w' this) = (if andUpdate then recomputed else previous)))"
proof -
  let ?c = "inspectables w this"
  let ?w1 = "update_inspectable this (\<lambda>c. c\<lparr>m_Identity := val\<rparr>) w"
  let ?w2 = "if andUpdate then fst (ForceUpdate ne this ?w1) else ?w1"
  have same: "\<not> ne (m_Identity ?c) val \<Longrightarrow> SetIdentity ne this val andUpdate w = (w, None)"
    by (simp add: SetIdentity_def)
  have changed: "(andUpdate \<longrightarrow> snd (ForceUpdate ne this ?w1) = None) \<and>
          w' = ?w2\<lparr>calls := calls ?w2 @
                   record_calls (m_IdentityChanged ?c) this (m_Identity ?c) val\<rparr> \<and>
          calls w' = calls w @
            (if andUpdate \<and> ne (m_LastValue ?c) (derived_value ?w1 this)
             then record_calls (m_ValueChanged ?c) this (m_LastValue ?c) (derived_value ?w1 this)
             else []) @
            record_calls (m_IdentityChanged ?c) this (m_Identity ?c) val \<and>
          m_Identity (inspectables w' this) = val \<and>
          m_LastValue (inspectables w' this) =
            (if andUpdate then derived_value ?w1 this else m_LastValue ?c)"
    if diff: "ne (m_Identity ?c) val" and ret: "SetIdentity ne this val andUpdate w = (w', None)"
  proof -
    obtain u r where upd: "(if andUpdate then ForceUpdate ne this ?w1 else (?w1, None)) = (u, r)"
      by (cases "if andUpdate then ForceUpdate ne this ?w1 else (?w1, None)")
    have r: "r = None"
      using diff ret upd by (cases r) (simp_all add: SetIdentity_def Let_def)
    have u: "u = ?w2" using upd by (auto split: if_splits)
    have sfu: "andUpdate \<Longrightarrow> snd (ForceUpdate ne this ?w1) = None"
      using upd r by simp
    have fu: "andUpdate \<Longrightarrow> ForceUpdate ne this ?w1 = (fst (ForceUpdate ne this ?w1), None)"
      using sfu by (metis prod.collapse)
    have w2: "inspectables ?w2 = (inspectables w)
                (this := ?c\<lparr>m_Identity := val,
                   m_LastValue := (if andUpdate then derived_value ?w1 this else m_LastValue ?c)\<rparr>)"
      and c2: "calls ?w2 = calls w @
            (if andUpdate \<and> ne (m_LastValue ?c) (derived_value ?w1 this)
             then record_calls (m_ValueChanged ?c) this (m_LastValue ?c) (derived_value ?w1 this)
             else [])"
    proof -
      show "inspectables ?w2 = (inspectables w)
                (this := ?c\<lparr>m_Identity := val,
                   m_LastValue := (if andUpdate then derived_value ?w1 this else m_LastValue ?c)\<rparr>)"
      proof (cases andUpdate)
        case True
        from ForceUpdate_returns[OF fu[OF True]] True show ?thesis
          by (simp add: update_inspectable_def)
      next
        case False
        then show ?thesis by (simp add: update_inspectable_def)
      qed
      show "calls ?w2 = calls w @
            (if andUpdate \<and> ne (m_LastValue ?c) (derived_value ?w1 this)
             then record_calls (m_ValueChanged ?c) this (m_LastValue ?c) (derived_value ?w1 this)
             else [])"
      proof (cases andUpdate)
        case True
        from ForceUpdate_returns[OF fu[OF True]] True show ?thesis
          by (auto simp: update_inspectable_def)
      next
        case False
        then show ?thesis by (simp add: update_inspectable_def)
      qed
    qed
    have "notify (m_IdentityChanged (inspectables ?w2 this)) this (m_Identity ?c)
            (m_Identity (inspectables ?w2 this)) ?w2 = (w', None)"
      using diff ret upd r u by (simp add: SetIdentity_def Let_def)
    from notify_returns[OF this]
    have w': "w' = ?w2\<lparr>calls := calls ?w2 @
                   record_calls (m_IdentityChanged ?c) this (m_Identity ?c) val\<rparr>"
      by (simp add: w2)
    have "inspectables w' = inspectables ?w2" and "calls w' = calls ?w2 @
                   record_calls (m_IdentityChanged ?c) this (m_Identity ?c) val"
      by (subst w', simp)+
    then have i': "inspectables w' = inspectables ?w2" and c': "calls w' = calls ?w2 @
                   record_calls (m_IdentityChanged ?c) this (m_Identity ?c) val"
      by simp_all
    have 1: "andUpdate \<longrightarrow> snd (ForceUpdate ne this ?w1) = None"
      using sfu by blast
    have 3: "calls w' = calls w @
            (if andUpdate \<and> ne (m_LastValue ?c) (derived_value ?w1 this)
             then record_calls (m_ValueChanged ?c) this (m_LastValue ?c) (derived_value ?w1 this)
             else []) @
            record_calls (m_IdentityChanged ?c) this (m_Identity ?c) val"
      unfolding c' c2 by simp
    have 4: "m_Identity (inspectables w' this) = val"
      unfolding i' w2 by simp
    have 5: "m_LastValue (inspectables w' this) =
            (if andUpdate then derived_value ?w1 this else m_LastValue ?c)"
      unfolding i' w2 by simp
    from 1 w' 3 4 5 show ?thesis by (intro conjI)
  qed
  show ?thesis
    unfolding Let_def
  proof (rule conjI; rule impI)
    assume "\<not> ne (m_Identity ?c) val"
    then show "SetIdentity ne this val andUpdate w = (w, None)" by (rule same)
  next
    assume a: "ne (m_Identity ?c) val \<and> SetIdentity ne this val andUpdate w = (w', None)"
    from changed[OF conjunct1[OF a] conjunct2[OF a]]
    show "(andUpdate \<longrightarrow> snd (ForceUpdate ne this ?w1) = None) \<and>
          w' = ?w2\<lparr>calls := calls ?w2 @
                   record_calls (m_IdentityChanged ?c) this (m_Identity ?c) val\<rparr> \<and>
          calls w' = calls w @
            (if andUpdate \<and> ne (m_LastValue ?c) (derived_value ?w1 this)
             then record_calls (m_ValueChanged ?c) this (m_LastValue ?c) (derived_value ?w1 this)
             else []) @
            record_calls (m_IdentityChanged ?c) this (m_Identity ?c) val \<and>
          m_Identity (inspectables w' this) = val \<and>
          m_LastValue (inspectables w' this) =
            (if andUpdate then derived_value ?w1 this else m_LastValue ?c)" .
  qed
qed

theorem SetIdentity_updates_then_notifies_witness:
  "SetIdentity int_ne 1 10 True example_world = (example_world, None) \<and>
   snd (SetIdentity int_ne 1 11 True example_world) = None \<and>
   calls (fst (SetIdentity int_ne 1 11 True example_world)) =
     [(3, 1, 10, 26), (4, 1, 10, 26), (5, 1, 10, 11)] \<and>
   m_Identity (inspectables (fst (SetIdentity int_ne 1 11 True example_world)) 1) = 11 \<and>
   m_LastValue (inspectables (fst (SetIdentity int_ne 1 11 True example_world)) 1) = 26"
proof -
  let ?w' = "fst (SetIdentity int_ne 1 11 True example_world)"
  have same: "\<not> int_ne (m_Identity (inspectables example_world 1)) 10"
    by (simp add: example_world_def int_ne_def)
  have diff: "int_ne (m_Identity (inspectables example_world 1)) 11"
    by (simp add: example_world_def int_ne_def)
  have s: "snd (SetIdentity int_ne 1 11 True example_world) = None"
    by (simp add: inspectable_defs example_defs)
  then have ret: "SetIdentity int_ne 1 11 True example_world = (?w', None)"
    by (metis prod.collapse)
  have d: "derived_value (update_inspectable 1 (\<lambda>c. c\<lparr>m_Identity := 11\<rparr>) example_world) 1 = 26"
    by (simp add: inspectable_defs example_defs)
  have c: "m_LastValue (inspectables example_world 1) = 10"
    "m_Identity (inspectables example_world 1) = 10"
    "m_ValueChanged (inspectables example_world 1) = [3, 4]"
    "m_IdentityChanged (inspectables example_world 1) = [5]"
    "calls example_world = []"
    by (simp_all add: example_world_def)
  from SetIdentity_updates_then_notifies[where ne = int_ne and w = example_world
      and this = 1 and val = 10 and andUpdate = True and w' = example_world] same
  have 1: "SetIdentity int_ne 1 10 True example_world = (example_world, None)"
    by blast
  from SetIdentity_updates_then_notifies[where ne = int_ne and w = example_world
      and this = 1 and val = 11 and andUpdate = True and w' = ?w'] diff ret
  have 2: "calls ?w' = [(3, 1, 10, 26), (4, 1, 10, 26), (5, 1, 10, 11)] \<and>
     m_Identity (inspectables ?w' 1) = 11 \<and> m_LastValue (inspectables ?w' 1) = 26"
    unfolding Let_def d c by (simp add: record_calls_def int_ne_def)
  from 1 s 2 show ?thesis by blast
qed

text \<open>
  C5. The members \<open>Set\<close>, \<open>SetInspectable\<close> and \<open>SetFunc\<close> of
  \<open>InspectableScopedValueChangedFunc\<close> and \<open>InspectableScopedIdentityChangedFunc\<close>
  pass the \<open>std::function\<close> object itself (\<open>m_OnValueChanged\<close>, and in \<open>Set\<close> the
  parameter \<open>func\<close>) to \<open>RemoveOnValueChanged\<close>, \<open>AddOnValueChanged\<close>,
  \<open>RemoveOnIdentityChanged\<close> and \<open>AddOnIdentityChanged\<close>, which take a pointer
  to one. There is no conversion from the object to the pointer, so these members are
  ill-formed once instantiated and have no behaviour to embed; the constructors and
  destructors of the same classes pass \<open>&m_OnValueChanged\<close>.
\<close>

text \<open>
  C6, as stated, fails for the instantiations of the header whose \<open>operator!=\<close> can
  hold between a value and itself. An inspectable constructed with a NaN caches NaN,
  \<open>lastValue != value\<close> holds at every \<open>ForceUpdate\<close>, and the value-changed
  callback is called again by the second call.
\<close>

theorem ForceUpdate_repeated_counterexample:
  "calls (fst (ForceUpdate ieee_ne 1 nan_world)) = [(3, 1, NaN, NaN)] \<and>
   calls (ForceUpdate_repeated ieee_ne (Suc (Suc 0)) 1 nan_world) =
     [(3, 1, NaN, NaN), (3, 1, NaN, NaN)]"
  by (simp add: nan_world_def AddOnValueChanged_def observer_def ieee_ne_def inspectable_defs)

text \<open>
  C6, amended. Calling \<open>ForceUpdate\<close> again, any number of times, on an inspectable
  whose identity and transformations stay as they are, leaves the same cached value
  every time. When \<open>operator!=\<close> does not hold between that cached value and itself
  (as for every value of the integer instantiations, and not for a NaN), the second
  and later calls leave the world as the first call left it: they call no
  value-changed callback.
\<close>

theorem ForceUpdate_repeated_settles:
  "m_LastValue (inspectables (ForceUpdate_repeated ne (Suc n) this w) this)
     = m_LastValue (inspectables (fst (ForceUpdate ne this w)) this) \<and>
   (\<not> ne (m_LastValue (inspectables (fst (ForceUpdate ne this w)) this))
          (m_LastValue (inspectables (fst (ForceUpdate ne this w)) this)) \<longrightarrow>
      ForceUpdate_repeated ne (Suc n) this w = fst (ForceUpdate ne this w) \<and>
      calls (ForceUpdate_repeated ne (Suc n) this w) = calls (fst (ForceUpdate ne this w)))"
proof -
  have "ForceUpdate_repeated ne (Suc n) this w = fst (ForceUpdate ne this w)"
    if "\<not> ne (m_LastValue (inspectables (fst (ForceUpdate ne this w)) this))
            (m_LastValue (inspectables (fst (ForceUpdate ne this w)) this))"
    using ForceUpdate_repeated_fixed[OF ForceUpdate_twice[where ne = ne and this = this
          and w = w, OF that], of n]
    by simp
  then show ?thesis
    using ForceUpdate_repeated_value[of ne n this w] by simp
qed

theorem ForceUpdate_repeated_settles_witness:
  "\<not> int_ne (m_LastValue (inspectables (fst (ForceUpdate int_ne 1 example_world)) 1))
             (m_LastValue (inspectables (fst (ForceUpdate int_ne 1 example_world)) 1)) \<and>
   m_LastValue (inspectables (ForceUpdate_repeated int_ne (Suc (Suc 0)) 1 example_world) 1) = 24 \<and>
   ForceUpdate_repeated int_ne (Suc (Suc 0)) 1 example_world =
     fst (ForceUpdate int_ne 1 example_world) \<and>
   calls (ForceUpdate_repeated int_ne (Suc (Suc 0)) 1 example_world) =
     [(3, 1, 10, 24), (4, 1, 10, 24)]"
proof -
  let ?w1 = "fst (ForceUpdate int_ne 1 example_world)"
  have h: "\<not> int_ne (m_LastValue (inspectables ?w1 1)) (m_LastValue (inspectables ?w1 1))"
    by (simp add: int_ne_def)
  have v: "m_LastValue (inspectables ?w1 1) = 24"
    by (simp add: inspectable_defs example_defs int_ne_def)
  have c: "calls ?w1 = [(3, 1, 10, 24), (4, 1, 10, 24)]"
    by (simp add: inspectable_defs example_defs int_ne_def)
  note t = ForceUpdate_repeated_settles[where ne = int_ne and n = "Suc 0" and this = 1
      and w = example_world]
  have "m_LastValue (inspectables (ForceUpdate_repeated int_ne (Suc (Suc 0)) 1 example_world) 1) =
      m_LastValue (inspectables ?w1 1)"
    using t by blast
  then have 1: "m_LastValue (inspectables (ForceUpdate_repeated int_ne (Suc (Suc 0)) 1 example_world) 1) = 24"
    unfolding v .
  have 2: "ForceUpdate_repeated int_ne (Suc (Suc 0)) 1 example_world = ?w1"
    using t h by blast
  have "calls (ForceUpdate_repeated int_ne (Suc (Suc 0)) 1 example_world) = calls ?w1"
    using t h by blast
  then have 3: "calls (ForceUpdate_repeated int_ne (Suc (Suc 0)) 1 example_world) =
     [(3, 1, 10, 24), (4, 1, 10, 24)]"
    unfolding c .
  from h 1 2 3 show ?thesis by (intro conjI)
qed

text \<open>
  C7, as stated, fails where the claim says that the transformation is registered
  exactly once: \<open>AddTransformation\<close> registers a pointer as often as it is called, and
  \<open>AddTransformationUnique\<close> removes nothing. After two calls of
  \<open>AddTransformation\<close> and two of \<open>AddTransformationUnique\<close> on the same pointer it
  is registered twice.
\<close>

theorem AddTransformationUnique_twice_counterexample:
  "m_Transformations (inspectables duplicated_world 1) = [1, 1] \<and>
   count_list (m_Transformations (inspectables duplicated_world 1)) 1 = 2"
  by (simp add: duplicated_world_def std_find.simps inspectable_defs example_defs)

text \<open>
  C7, amended. After \<open>AddTransformationUnique\<close> of a non-null pointer, a second
  \<open>AddTransformationUnique\<close> of the same pointer changes nothing and runs no update,
  whatever its \<open>andUpdate\<close>; the pointer is in \<open>m_Transformations\<close> as often as
  the first call left it, which is once if it was not registered before the first call
  and as often as before if it was; a later \<open>ForceUpdate\<close> does what it would have
  done without the second call.
\<close>

theorem AddTransformationUnique_twice:
  assumes "std_sort_contract srt" and "transformation \<noteq> nullptr"
  shows "let w1 = fst (AddTransformationUnique srt ne this transformation andUpdate w) in
     AddTransformationUnique srt ne this transformation andUpdate2 w1 = (w1, None) \<and>
     count_list (m_Transformations (inspectables w1 this)) transformation =
       (if transformation \<in> set (m_Transformations (inspectables w this))
        then count_list (m_Transformations (inspectables w this)) transformation
        else 1) \<and>
     ForceUpdate ne this (fst (AddTransformationUnique srt ne this transformation andUpdate2 w1))
       = ForceUpdate ne this w1"
proof -
  let ?old = "m_Transformations (inspectables w this)"
  let ?w1 = "fst (AddTransformationUnique srt ne this transformation andUpdate w)"
  let ?new = "m_Transformations (inspectables ?w1 this)"
  have new: "mset ?new =
      (if transformation \<in> set ?old then mset ?old else add_mset transformation (mset ?old))"
  proof (cases "transformation \<in> set ?old")
    case True
    then show ?thesis by (simp add: AddTransformationUnique_present)
  next
    case False
    have "?new = srt (TransformationPredicate w) (?old @ [transformation])"
      using AddTransformation_vector(1)[OF assms(2)]
      by (simp add: AddTransformationUnique_absent[OF assms(2) False])
    then show ?thesis
      using False std_sort_slots(1)[OF assms(1), of w "?old @ [transformation]"] by simp
  qed
  have "transformation \<in># mset ?new"
    unfolding new by simp
  then have registered: "transformation \<in> set ?new"
    by simp
  have again: "AddTransformationUnique srt ne this transformation andUpdate2 ?w1 = (?w1, None)"
    using registered by (rule AddTransformationUnique_present)
  have "count (mset ?new) transformation =
      (if transformation \<in> set ?old then count (mset ?old) transformation else 1)"
    unfolding new by (simp add: count_eq_zero_iff)
  then have once: "count_list ?new transformation =
      (if transformation \<in> set ?old then count_list ?old transformation else 1)"
    by (simp add: count_mset)
  show ?thesis
    unfolding Let_def using again once by simp
qed


theorem AddTransformationUnique_twice_witness:
  "std_sort_contract (insertion_sort :: addr std_sort) \<and> (3::nat) \<noteq> nullptr \<and>
   AddTransformationUnique insertion_sort int_ne 1 3 True
       (fst (AddTransformationUnique insertion_sort int_ne 1 3 True example_world))
     = (fst (AddTransformationUnique insertion_sort int_ne 1 3 True example_world), None) \<and>
   count_list (m_Transformations (inspectables
       (fst (AddTransformationUnique insertion_sort int_ne 1 3 True example_world)) 1)) 3 = 1"
proof -
  have n: "(3::nat) \<noteq> nullptr" by (simp add: nullptr_def)
  have a: "3 \<notin> set (m_Transformations (inspectables example_world 1))"
    by (simp add: example_world_def)
  show ?thesis
    using AddTransformationUnique_twice[OF insertion_sort_contract n,
        of int_ne 1 True example_world True]
      insertion_sort_contract n a
    by (simp add: Let_def)
qed

text \<open>
  C8. \<open>RemoveTransformation\<close> of a non-null pointer that is in \<open>m_Transformations\<close>
  removes its first occurrence and then, if \<open>andUpdate\<close> is set, runs
  \<open>ForceUpdate\<close>. For a pointer that is not in \<open>m_Transformations\<close> it changes
  nothing, runs no update, calls no callback and throws nothing.
\<close>

theorem RemoveTransformation_first_match:
  "(transformation \<noteq> nullptr \<and>
    transformation \<in> set (m_Transformations (inspectables w this)) \<longrightarrow>
      RemoveTransformation ne this transformation andUpdate w =
        (let w1 = update_inspectable this
                    (\<lambda>c. c\<lparr>m_Transformations :=
                             remove1 transformation (m_Transformations c)\<rparr>) w
         in if andUpdate then ForceUpdate ne this w1 else (w1, None))) \<and>
   (transformation \<notin> set (m_Transformations (inspectables w this)) \<longrightarrow>
      RemoveTransformation ne this transformation andUpdate w = (w, None))"
proof -
  let ?ts = "m_Transformations (inspectables w this)"
  have absent: "transformation \<notin> set ?ts \<Longrightarrow>
      RemoveTransformation ne this transformation andUpdate w = (w, None)"
    by (simp add: RemoveTransformation_def Let_def std_find_end)
  have present: "RemoveTransformation ne this transformation andUpdate w =
        (let w1 = update_inspectable this
                    (\<lambda>c. c\<lparr>m_Transformations :=
                             remove1 transformation (m_Transformations c)\<rparr>) w
         in if andUpdate then ForceUpdate ne this w1 else (w1, None))"
    if "transformation \<noteq> nullptr" and "transformation \<in> set ?ts"
  proof -
    have "std_find ?ts transformation \<noteq> length ?ts"
      using that(2) by (simp add: std_find_end)
    moreover have "erase ?ts (std_find ?ts transformation) = remove1 transformation ?ts"
      using that(2) by (rule erase_std_find)
    ultimately show ?thesis
      using that(1) by (simp add: RemoveTransformation_def Let_def update_inspectable_def)
  qed
  show ?thesis using absent present by blast
qed

theorem RemoveTransformation_first_match_witness:
  "RemoveTransformation int_ne 1 1 True example_world =
     ForceUpdate int_ne 1 (update_inspectable 1 (\<lambda>c. c\<lparr>m_Transformations := [2]\<rparr>) example_world) \<and>
   m_LastValue (inspectables (fst (RemoveTransformation int_ne 1 1 True example_world)) 1) = 12 \<and>
   RemoveTransformation int_ne 1 9 True example_world = (example_world, None)"
proof -
  have p: "(1::nat) \<noteq> nullptr \<and> 1 \<in> set (m_Transformations (inspectables example_world 1))"
    by (simp add: example_world_def nullptr_def)
  have a: "9 \<notin> set (m_Transformations (inspectables example_world 1))"
    by (simp add: example_world_def)
  have r: "update_inspectable 1 (\<lambda>c. c\<lparr>m_Transformations := remove1 1 (m_Transformations c)\<rparr>)
             example_world
           = update_inspectable 1 (\<lambda>c. c\<lparr>m_Transformations := [2]\<rparr>) example_world"
    by (simp add: update_inspectable_def example_world_def)
  have v: "m_LastValue (inspectables (fst (ForceUpdate int_ne 1
             (update_inspectable 1 (\<lambda>c. c\<lparr>m_Transformations := [2]\<rparr>) example_world))) 1) = 12"
    by (simp add: inspectable_defs example_defs)
  show ?thesis
    using RemoveTransformation_first_match[where ne = int_ne and transformation = 1
        and w = example_world and this = 1 and andUpdate = True] p
      RemoveTransformation_first_match[where ne = int_ne and transformation = 9
        and w = example_world and this = 1 and andUpdate = True] a r v
    by (simp add: Let_def)
qed

text \<open>
  C9. Example A: on an inspectable constructed with identity 10, registering an
  enabled transformation \<open>A\<close> of priority 0 that doubles, with immediate update,
  gives the cached value 20; registering then an enabled transformation \<open>B\<close> of
  priority 1 that adds 2, with immediate update, puts \<open>B\<close> before \<open>A\<close> and gives
  the cached value 24.
\<close>

theorem example_A:
  assumes "std_sort_contract srt" and "inspectables w this = Inspectable_init 10"
    and "A \<noteq> nullptr" and "B \<noteq> nullptr" and "A \<noteq> B"
  shows "let w1 = fst (AddTransformation_func srt ne this A times_two 0 True True w);
             w2 = fst (AddTransformation_func srt ne this B plus_two 1 True True w1)
         in GetValue ne this False w1 = (w1, Inr 20) \<and> GetValue ne this False w2 = (w2, Inr 24) \<and>
            m_Transformations (inspectables w2 this) = [B, A]"
proof -
  let ?wA = "update_transformation A (Set_transformation times_two 0 True) w"
  let ?w1 = "fst (AddTransformation_func srt ne this A times_two 0 True True w)"
  let ?wB = "update_transformation B (Set_transformation plus_two 1 True) ?w1"
  let ?w2 = "fst (AddTransformation_func srt ne this B plus_two 1 True True ?w1)"
  have w1_def: "?w1 = fst (AddTransformation srt ne this A True ?wA)"
    by (simp add: AddTransformation_func_def)
  have w2_def: "?w2 = fst (AddTransformation srt ne this B True ?wB)"
    by (simp add: AddTransformation_func_def)
  have cA: "inspectables ?wA this = Inspectable_init 10"
    using assms(2) by (simp add: update_transformation_def)
  have tA: "transformations ?wA A = \<lparr>m_Priority = 0, m_Enabled = True, m_Function = times_two\<rparr>"
    by (simp add: update_transformation_def Set_transformation_def)
  let ?uA = "update_inspectable this (\<lambda>c. c\<lparr>m_Transformations := [A]\<rparr>) ?wA"
  have addA: "AddTransformation srt ne this A True ?wA = ForceUpdate ne this ?uA"
    using assms(3) cA
    by (simp add: AddTransformation_def Let_def added_and_sorted Inspectable_init_def
        sorted_single[OF assms(1)])
  have walkA: "apply_transformations ?uA (m_Transformations (inspectables ?uA this))
      (m_Identity (inspectables ?uA this)) = (20, None)"
    using cA tA
    by (simp add: update_inspectable_def Inspectable_init_def IsEnabled_def
        GetTransformFunc_def call_operator_def times_two_def)
  have v1: "m_LastValue (inspectables ?w1 this) = 20"
    unfolding w1_def addA by (rule ForceUpdate_value[OF walkA])
  have ts1: "m_Transformations (inspectables ?w1 this) = [A]"
    unfolding w1_def addA by (simp add: ForceUpdate_keeps_vectors) (simp add: update_inspectable_def)
  have id1: "m_Identity (inspectables ?w1 this) = 10"
    unfolding w1_def addA using cA
    by (simp add: ForceUpdate_keeps_vectors) (simp add: update_inspectable_def Inspectable_init_def)
  have tr1: "transformations ?w1 = transformations ?wA"
    unfolding w1_def addA by (simp add: ForceUpdate_frame) (simp add: update_inspectable_def)
  have tBA: "transformations ?wB A = \<lparr>m_Priority = 0, m_Enabled = True, m_Function = times_two\<rparr>"
    using assms(5) tA by (simp add: update_transformation_def tr1)
  have tBB: "transformations ?wB B = \<lparr>m_Priority = 1, m_Enabled = True, m_Function = plus_two\<rparr>"
    by (simp add: update_transformation_def Set_transformation_def)
  have cB: "inspectables ?wB this = inspectables ?w1 this"
    by (simp add: update_transformation_def)
  have order: "srt (TransformationPredicate ?wB) [A, B] = [B, A]"
    by (rule sorted_pair[OF assms(1)]) (simp add: tBA tBB)
  let ?uB = "update_inspectable this (\<lambda>c. c\<lparr>m_Transformations := [B, A]\<rparr>) ?wB"
  have addB: "AddTransformation srt ne this B True ?wB = ForceUpdate ne this ?uB"
    using assms(4) by (simp add: AddTransformation_def Let_def added_and_sorted cB ts1 order)
  have walkB: "apply_transformations ?uB (m_Transformations (inspectables ?uB this))
      (m_Identity (inspectables ?uB this)) = (24, None)"
    using tBA tBB id1 cB
    by (simp add: update_inspectable_def IsEnabled_def
        GetTransformFunc_def call_operator_def times_two_def plus_two_def)
  have v2: "m_LastValue (inspectables ?w2 this) = 24"
    unfolding w2_def addB by (rule ForceUpdate_value[OF walkB])
  have ts2: "m_Transformations (inspectables ?w2 this) = [B, A]"
    unfolding w2_def addB by (simp add: ForceUpdate_keeps_vectors) (simp add: update_inspectable_def)
  show ?thesis
    unfolding Let_def by (simp add: GetValue_def v1 v2 ts2)
qed

theorem example_A_witness:
  "std_sort_contract (insertion_sort :: addr std_sort) \<and>
   inspectables example_start 1 = Inspectable_init 10 \<and>
   (1::nat) \<noteq> nullptr \<and> (2::nat) \<noteq> nullptr \<and> (1::nat) \<noteq> 2 \<and>
   snd (GetValue int_ne 1 False
          (fst (AddTransformation_func insertion_sort int_ne 1 1 times_two 0 True True example_start)))
     = Inr 20 \<and>
   snd (GetValue int_ne 1 False
          (fst (AddTransformation_func insertion_sort int_ne 1 2 plus_two 1 True True
             (fst (AddTransformation_func insertion_sort int_ne 1 1 times_two 0 True True
                example_start)))))
     = Inr 24"
proof -
  have c: "inspectables example_start 1 = Inspectable_init 10"
    by (simp add: example_start_def)
  have n: "(1::nat) \<noteq> nullptr" "(2::nat) \<noteq> nullptr" "(1::nat) \<noteq> 2"
    by (simp_all add: nullptr_def)
  show ?thesis
    using example_A[where ne = int_ne, OF insertion_sort_contract c n] insertion_sort_contract c n
    by (simp add: Let_def)
qed



end
